theory Spec2Isabelle
  imports Main "HOL-Library.Sublist"
begin

section \<open>The statsd exporter's process wiring (main.go)\<close>

text \<open>
  The development embeds \<^verbatim>\<open>main.go\<close>: flag validation, the start of the listeners, the
  initialisation of the metric mapper, the diagnostic dump of the matching automaton and
  the reload loop driven by SIGHUP. Every call that leaves the program (the network, the
  file system, the standard library's parsers) is a field of the record \<open>world\<close>: the
  model is a function of the flags and of what the outside answers. \<^verbatim>\<open>log.Fatal\<close> ends
  the process, so a run of \<open>main\<close> is either the trace of a terminated process (\<open>Inl\<close>)
  or the state of a process that serves traffic (\<open>Inr\<close>).
\<close>

subsection \<open>The mapping engine, as far as main.go drives it\<close>

text \<open>
  Modelled from the spec: the data model of pkg/mapper (section 3 of the spec), whose type
  declarations are not among the sources. A pattern is a list of dot-segments.
\<close>

datatype segment = Literal string | SingleWildcard | TrailingWildcard

text \<open>Modelled from the spec: the four metric kinds of an event or of a rule's override.\<close>

datatype metricKind = CounterKind | GaugeKind | ObserverKind | SetKind

text \<open>Modelled from the spec: what a rule does with a bucket it matches.\<close>

datatype ruleAction = MapAction | DropAction

text \<open>Modelled from the spec: a name or label template, literal text and placeholders
  \<^verbatim>\<open>$n\<close> for the captures.\<close>

datatype piece = Text string | Capture nat

text \<open>Modelled from the spec: a mapping rule; a rule set is the rules in file order.\<close>

record MappingRule =
  pattern :: "segment list"
  nameTemplate :: "piece list"
  labelTemplates :: "(string \<times> piece list) list"
  kindOverride :: "metricKind option"
  onMatch :: ruleAction
  declarationOrder :: nat

type_synonym RuleSet = "MappingRule list"

text \<open>Modelled from the spec: the value the cache holds for a bucket.\<close>

record MappingResult =
  resolvedName :: string
  labels :: "(string \<times> string) list"
  matched :: bool
  resultKind :: "metricKind option"

text \<open>Modelled from the spec: the bounded cache, most recently used entry first.\<close>

record lruCache =
  capacity :: int
  entries :: "(string \<times> MappingResult) list"

text \<open>
  Modelled from the spec: the mapper's state, the rule set and the cache. The compiled
  automaton (the field \<^verbatim>\<open>FSM\<close> that \<^verbatim>\<open>dumpFSM\<close> writes) is a function of the rule set, rebuilt
  wholesale for every rule set, so the record keeps the rule set; the gauge
  \<^verbatim>\<open>MappingsCount\<close> is telemetry and is left out.
  \<^verbatim>\<open>&mapper.MetricMapper{MappingsCount: mappingsCount}\<close> is a mapper with no rule and no cache
  yet.
\<close>

record MetricMapper =
  rules :: RuleSet
  cache :: "lruCache option"

definition newMetricMapper :: MetricMapper where
  "newMetricMapper = \<lparr>rules = [], cache = None\<rparr>"

subsection \<open>Flags and the outside world\<close>

record flags =
  listenAddress :: string
  metricsEndpoint :: string
  statsdListenUDP :: string
  statsdListenTCP :: string
  statsdListenUnixgram :: string
  statsdUnixSocketMode :: string
  mappingConfig :: string
  readBuffer :: int
  cacheSize :: int
  eventQueueSize :: int
  eventFlushThreshold :: int
  eventFlushInterval :: int
  dumpFSMPath :: string

text \<open>The defaults kingpin gives the flags (the flush interval in milliseconds).\<close>

definition defaultFlags :: flags where
  "defaultFlags = \<lparr>listenAddress = '':9102'', metricsEndpoint = ''/metrics'',
     statsdListenUDP = '':9125'', statsdListenTCP = '':9125'', statsdListenUnixgram = [],
     statsdUnixSocketMode = ''755'', mappingConfig = [], readBuffer = 0, cacheSize = 1000,
     eventQueueSize = 10000, eventFlushThreshold = 1000, eventFlushInterval = 200,
     dumpFSMPath = []\<rparr>"

datatype statResult = StatOk | StatNotExist | StatOtherError

text \<open>
  What the environment answers. An error is its message; \<open>None\<close> is Go's \<^verbatim>\<open>nil\<close> error.
  \<open>loadConfig\<close> is reading and parsing the mapping file at a path.
\<close>

record world =
  splitHostPort :: "string \<Rightarrow> (string \<times> string) option"
  resolveIPAddr :: "string \<Rightarrow> string option"
  atoi :: "string \<Rightarrow> int option"
  listenUDP :: "string \<times> int \<Rightarrow> string option"
  setReadBufferUDP :: "int \<Rightarrow> string option"
  listenTCP :: "string \<times> int \<Rightarrow> string option"
  statBefore :: "string \<Rightarrow> statResult"
  listenUnixgram :: "string \<Rightarrow> string option"
  setReadBufferUnixgram :: "int \<Rightarrow> string option"
  statAfter :: "string \<Rightarrow> statResult"
  parseOctal :: "string \<Rightarrow> int option"
  chmod :: "string \<Rightarrow> int \<Rightarrow> string option"
  loadConfig :: "string \<Rightarrow> string + RuleSet"
  createFile :: "string \<Rightarrow> string option"

subsection \<open>The mapper's two initialisers\<close>

text \<open>
  Modelled from the spec: \<^verbatim>\<open>MetricMapper.InitCache\<close> of pkg/mapper, which is not among the
  sources. Only the lookup cache is (re)created, empty, with the given size.
\<close>

definition InitCache :: "int \<Rightarrow> MetricMapper \<Rightarrow> MetricMapper" where
  "InitCache csize m = m\<lparr>cache := Some \<lparr>capacity = csize, entries = []\<rparr>\<rparr>"

text \<open>
  Modelled from the spec: \<^verbatim>\<open>MetricMapper.InitFromFile\<close> of pkg/mapper, which is not among
  the sources. A new rule set and a fresh cache replace the old pair together; a file that
  cannot be read or parsed leaves the previous pair intact and is reported as an error.
\<close>

definition InitFromFile :: "world \<Rightarrow> string \<Rightarrow> int \<Rightarrow> MetricMapper \<Rightarrow> string option \<times> MetricMapper" where
  "InitFromFile w fileName csize m =
     (case loadConfig w fileName of
        Inl err \<Rightarrow> (Some err, m)
      | Inr rs \<Rightarrow> (None, m\<lparr>rules := rs, cache := Some \<lparr>capacity = csize, entries = []\<rparr>\<rparr>))"

subsection \<open>What a run does: the trace\<close>

datatype level = Info | Warn | Error | Fatal

datatype transport = UDP | TCP | Unixgram

datatype effect =
    Log level string
  | Panic string
  | GoServeHTTP string string
  | MakeChan int
  | NewEventQueue int int
  | Bound transport string
  | SetReadBuffer transport int
  | GoListen transport
  | Chmod string int
  | Defer string
  | NewMetricMapper
  | CallInitFromFile string int
  | CallInitCache int
  | CreateFile string
  | WriteFSM string RuleSet
  | GoConfigReloader string int
  | NewExporter
  | GoExporterListen
  | AwaitSignals

text \<open>The state of a serving process: what it has done, its mapper, and the
  \<^verbatim>\<open>configLoads\<close> counter vector, indexed by the label \<^verbatim>\<open>outcome\<close>. The vector is declared
  outside main.go; a counter is the number of its \<^verbatim>\<open>Inc\<close> calls, and starts at zero.\<close>

record proc =
  trace :: "effect list"
  mapper :: MetricMapper
  configLoads :: "string \<Rightarrow> nat"

text \<open>\<^verbatim>\<open>log.Fatal\<close>: the message is logged and the process exits.\<close>

definition logFatal :: "string \<Rightarrow> effect list \<Rightarrow> effect list + 'a" where
  "logFatal msg tr = Inl (tr @ [Log Fatal msg])"

subsection \<open>Listener addresses\<close>

definition ipPortFromString :: "world \<Rightarrow> string \<Rightarrow> string + (string \<times> int)" where
  "ipPortFromString w addr =
     (case splitHostPort w addr of
        None \<Rightarrow> Inl (''Bad StatsD listening address'' @ addr)
      | Some (host0, portStr) \<Rightarrow>
          (let host = (if host0 = [] then ''0.0.0.0'' else host0) in
           case resolveIPAddr w host of
             None \<Rightarrow> Inl (''Unable to resolve '' @ host)
           | Some ip \<Rightarrow>
               (case atoi w portStr of
                  None \<Rightarrow> Inl (''Bad port '' @ portStr)
                | Some port \<Rightarrow>
                    if port < 0 \<or> port > 65535 then Inl (''Bad port '' @ portStr)
                    else Inr (ip, port))))"

definition udpAddrFromString :: "world \<Rightarrow> string \<Rightarrow> string + (string \<times> int)" where
  "udpAddrFromString w addr = ipPortFromString w addr"

definition tcpAddrFromString :: "world \<Rightarrow> string \<Rightarrow> string + (string \<times> int)" where
  "tcpAddrFromString w addr = ipPortFromString w addr"

subsection \<open>The three listener blocks of main\<close>

definition startUDP :: "flags \<Rightarrow> world \<Rightarrow> effect list \<Rightarrow> effect list + effect list" where
  "startUDP fl w tr =
     (if statsdListenUDP fl = [] then Inr tr
      else
        case udpAddrFromString w (statsdListenUDP fl) of
          Inl msg \<Rightarrow> logFatal msg tr
        | Inr addr \<Rightarrow>
            (case listenUDP w addr of
               Some err \<Rightarrow> logFatal err tr
             | None \<Rightarrow>
                 (let tr1 = tr @ [Bound UDP (statsdListenUDP fl)] in
                  if readBuffer fl \<noteq> 0 then
                    (case setReadBufferUDP w (readBuffer fl) of
                       Some err \<Rightarrow> logFatal (''Error setting UDP read buffer:'' @ err) tr1
                     | None \<Rightarrow> Inr (tr1 @ [SetReadBuffer UDP (readBuffer fl), GoListen UDP]))
                  else Inr (tr1 @ [GoListen UDP]))))"

definition startTCP :: "flags \<Rightarrow> world \<Rightarrow> effect list \<Rightarrow> effect list + effect list" where
  "startTCP fl w tr =
     (if statsdListenTCP fl = [] then Inr tr
      else
        case tcpAddrFromString w (statsdListenTCP fl) of
          Inl msg \<Rightarrow> logFatal msg tr
        | Inr addr \<Rightarrow>
            (case listenTCP w addr of
               Some err \<Rightarrow> logFatal err tr
             | None \<Rightarrow>
                 Inr (tr @ [Bound TCP (statsdListenTCP fl), Defer ''tconn.Close'', GoListen TCP])))"

text \<open>The socket's permission: a bad mode or a failed chmod is a warning only.\<close>

definition chmodSocket :: "flags \<Rightarrow> world \<Rightarrow> effect list \<Rightarrow> effect list" where
  "chmodSocket fl w tr =
     (if statAfter w (statsdListenUnixgram fl) \<noteq> StatNotExist then
        (let tr1 = tr @ [Defer ''os.Remove''] in
         case parseOctal w (''0'' @ statsdUnixSocketMode fl) of
           None \<Rightarrow> tr1 @ [Log Warn (''Bad permission '' @ statsdUnixSocketMode fl)]
         | Some perm \<Rightarrow>
             (case chmod w (statsdListenUnixgram fl) perm of
                Some err \<Rightarrow>
                  tr1 @ [Log Warn (''Failed to change unixgram socket permission: '' @ err)]
              | None \<Rightarrow> tr1 @ [Chmod (statsdListenUnixgram fl) perm]))
      else tr)"

definition startUnixgram :: "flags \<Rightarrow> world \<Rightarrow> effect list \<Rightarrow> effect list + effect list" where
  "startUnixgram fl w tr =
     (if statsdListenUnixgram fl = [] then Inr tr
      else if statBefore w (statsdListenUnixgram fl) \<noteq> StatNotExist then
        logFatal (''Unixgram socket already exists: '' @ statsdListenUnixgram fl) tr
      else
        case listenUnixgram w (statsdListenUnixgram fl) of
          Some err \<Rightarrow> logFatal err tr
        | None \<Rightarrow>
            (let tr1 = tr @ [Bound Unixgram (statsdListenUnixgram fl), Defer ''uxgconn.Close''] in
             if readBuffer fl \<noteq> 0 then
               (case setReadBufferUnixgram w (readBuffer fl) of
                  Some err \<Rightarrow> logFatal (''Error setting Unixgram read buffer:'' @ err) tr1
                | None \<Rightarrow>
                    Inr (chmodSocket fl w
                          (tr1 @ [SetReadBuffer Unixgram (readBuffer fl), GoListen Unixgram])))
             else Inr (chmodSocket fl w (tr1 @ [GoListen Unixgram]))))"

text \<open>The three blocks in the order of the source: a fatal exit in one skips the rest.\<close>

definition startListeners :: "flags \<Rightarrow> world \<Rightarrow> effect list \<Rightarrow> effect list + effect list" where
  "startListeners fl w tr =
     (case startUDP fl w tr of
        Inl t \<Rightarrow> Inl t
      | Inr tr2 \<Rightarrow>
          (case startTCP fl w tr2 of
             Inl t \<Rightarrow> Inl t
           | Inr tr3 \<Rightarrow> startUnixgram fl w tr3))"

subsection \<open>The diagnostic dump and the mapper block of main\<close>

text \<open>\<^verbatim>\<open>dumpFSM\<close>: only the creation of the file can fail; what the writer, its flush
  and the close return is dropped by the source.\<close>

definition dumpFSM :: "world \<Rightarrow> MetricMapper \<Rightarrow> string \<Rightarrow> effect list \<Rightarrow> string option \<times> effect list" where
  "dumpFSM w m dumpFilename tr =
     (case createFile w dumpFilename of
        Some err \<Rightarrow> (Some err, tr)
      | None \<Rightarrow>
          (None, tr @ [CreateFile dumpFilename, Log Info (''Start dumping FSM to'' @ dumpFilename),
                       WriteFSM dumpFilename (rules m), Log Info ''Finish dumping FSM'']))"

definition initMapper :: "flags \<Rightarrow> world \<Rightarrow> effect list \<Rightarrow> effect list + (effect list \<times> MetricMapper)" where
  "initMapper fl w tr =
     (let tr0 = tr @ [NewMetricMapper] in
      if mappingConfig fl \<noteq> [] then
        (let tr1 = tr0 @ [CallInitFromFile (mappingConfig fl) (cacheSize fl)] in
         case InitFromFile w (mappingConfig fl) (cacheSize fl) newMetricMapper of
           (Some err, m) \<Rightarrow> logFatal (''Error loading config:'' @ err) tr1
         | (None, m) \<Rightarrow>
             (if dumpFSMPath fl \<noteq> [] then
                (case dumpFSM w m (dumpFSMPath fl) tr1 of
                   (Some err, tr2) \<Rightarrow> logFatal (''Error dumping FSM:'' @ err) tr2
                 | (None, tr2) \<Rightarrow> Inr (tr2, m))
              else Inr (tr1, m)))
      else Inr (tr0 @ [CallInitCache (cacheSize fl)], InitCache (cacheSize fl) newMetricMapper))"

subsection \<open>main\<close>

definition banner :: "flags \<Rightarrow> effect list" where
  "banner fl =
     [Log Info ''Starting StatsD -> Prometheus Exporter'', Log Info ''Build context'',
      Log Info ''Accepting StatsD Traffic'', Log Info ''Accepting Prometheus Requests'',
      GoServeHTTP (listenAddress fl) (metricsEndpoint fl)]"

text \<open>The channel of batches and the event queue that flushes into it.\<close>

definition preamble :: "flags \<Rightarrow> effect list" where
  "preamble fl =
     banner fl @ [MakeChan (eventQueueSize fl), Defer ''close(events)'',
                  NewEventQueue (eventFlushThreshold fl) (eventFlushInterval fl)]"

text \<open>
  \<^verbatim>\<open>make(chan Events, n)\<close> panics for a negative \<open>n\<close>. The goroutine of \<^verbatim>\<open>serveHTTP\<close> is
  started and not followed. A process that reaches \<^verbatim>\<open><-signals\<close> serves traffic.
\<close>

definition main :: "flags \<Rightarrow> world \<Rightarrow> effect list + proc" where
  "main fl w =
     (if statsdListenUDP fl = [] \<and> statsdListenTCP fl = [] \<and> statsdListenUnixgram fl = [] then
        logFatal ''At least one of UDP/TCP/Unixgram listeners must be specified.'' []
      else if eventQueueSize fl < 0 then
        Inl (banner fl @ [Panic ''makechan: size out of range''])
      else
        case startListeners fl w (preamble fl) of
          Inl t \<Rightarrow> Inl t
        | Inr tr4 \<Rightarrow>
            (case initMapper fl w tr4 of
               Inl t \<Rightarrow> Inl t
             | Inr (tr5, m) \<Rightarrow>
                 Inr \<lparr>trace = tr5 @ [GoConfigReloader (mappingConfig fl) (cacheSize fl),
                                  NewExporter, GoExporterListen, AwaitSignals],
                      mapper = m, configLoads = (\<lambda>_. 0)\<rparr>))"

text \<open>What a run did, whether it ended or serves.\<close>

definition traceOf :: "effect list + proc \<Rightarrow> effect list" where
  "traceOf r = (case r of Inl t \<Rightarrow> t | Inr p \<Rightarrow> trace p)"

subsection \<open>The reload loop\<close>

text \<open>
  The body of \<^verbatim>\<open>for s := range signals\<close> for one SIGHUP taken from the channel; \<open>w\<close> is
  the world at that moment (the file may have changed since the start).
\<close>

definition reloadOnSignal :: "string \<Rightarrow> int \<Rightarrow> world \<Rightarrow> proc \<Rightarrow> proc" where
  "reloadOnSignal fileName csize w p =
     (if fileName = [] then
        p\<lparr>trace := trace p @ [Log Warn ''Received SIGHUP but no mapping config to reload'']\<rparr>
      else
        (let tr1 = trace p @ [Log Info ''Received SIGHUP, attempting reload'',
                              CallInitFromFile fileName csize] in
         case InitFromFile w fileName csize (mapper p) of
           (Some err, m) \<Rightarrow>
             p\<lparr>trace := tr1 @ [Log Error (''Error reloading config:'' @ err)],
               mapper := m,
               configLoads := (configLoads p)(''failure'' := Suc (configLoads p ''failure''))\<rparr>
         | (None, m) \<Rightarrow>
             p\<lparr>trace := tr1 @ [Log Info ''Config reloaded successfully''],
               mapper := m,
               configLoads := (configLoads p)(''success'' := Suc (configLoads p ''success''))\<rparr>))"

primrec configReloader :: "string \<Rightarrow> int \<Rightarrow> world list \<Rightarrow> proc \<Rightarrow> proc" where
  "configReloader fileName csize [] p = p"
| "configReloader fileName csize (w # ws) p =
     configReloader fileName csize ws (reloadOnSignal fileName csize w p)"

text \<open>main, then the reloader it started with \<^verbatim>\<open>go configReloader(*mappingConfig, mapper,
  *cacheSize)\<close>, fed the worlds of the SIGHUPs that arrive.\<close>

definition run :: "flags \<Rightarrow> world \<Rightarrow> world list \<Rightarrow> effect list + proc" where
  "run fl w ws =
     (case main fl w of
        Inl t \<Rightarrow> Inl t
      | Inr p \<Rightarrow> Inr (configReloader (mappingConfig fl) (cacheSize fl) ws p))"

subsection \<open>Vocabulary of the statements\<close>

text \<open>The effects that touch the mapper or the dump file.\<close>

fun mapperEffect :: "effect \<Rightarrow> bool" where
  "mapperEffect NewMetricMapper = True"
| "mapperEffect (CallInitFromFile f n) = True"
| "mapperEffect (CallInitCache n) = True"
| "mapperEffect (CreateFile f) = True"
| "mapperEffect (WriteFSM f rs) = True"
| "mapperEffect e = False"

definition stageTrace :: "effect list + effect list \<Rightarrow> effect list" where
  "stageTrace r = (case r of Inl t \<Rightarrow> t | Inr t \<Rightarrow> t)"

text \<open>The address flag of a transport, and "the transport is configured, its address
  is well formed and the listen call returns an error".\<close>

fun configured :: "transport \<Rightarrow> flags \<Rightarrow> string" where
  "configured UDP fl = statsdListenUDP fl"
| "configured TCP fl = statsdListenTCP fl"
| "configured Unixgram fl = statsdListenUnixgram fl"

fun listenFails :: "transport \<Rightarrow> flags \<Rightarrow> world \<Rightarrow> bool" where
  "listenFails UDP fl w =
     (statsdListenUDP fl \<noteq> [] \<and>
      (case udpAddrFromString w (statsdListenUDP fl) of
         Inl msg \<Rightarrow> False | Inr addr \<Rightarrow> listenUDP w addr \<noteq> None))"
| "listenFails TCP fl w =
     (statsdListenTCP fl \<noteq> [] \<and>
      (case tcpAddrFromString w (statsdListenTCP fl) of
         Inl msg \<Rightarrow> False | Inr addr \<Rightarrow> listenTCP w addr \<noteq> None))"
| "listenFails Unixgram fl w =
     (statsdListenUnixgram fl \<noteq> [] \<and> listenUnixgram w (statsdListenUnixgram fl) \<noteq> None)"

text \<open>A world in which every call succeeds: addresses resolve, sockets bind, no socket
  file is in the way, the mapping file holds no rule and the dump file can be created.\<close>

definition obligingWorld :: world where
  "obligingWorld =
     \<lparr>splitHostPort = (\<lambda>a. Some ([], ''9125'')), resolveIPAddr = (\<lambda>h. Some h),
      atoi = (\<lambda>s. Some 9125), listenUDP = (\<lambda>a. None), setReadBufferUDP = (\<lambda>n. None),
      listenTCP = (\<lambda>a. None), statBefore = (\<lambda>f. StatNotExist), listenUnixgram = (\<lambda>f. None),
      setReadBufferUnixgram = (\<lambda>n. None), statAfter = (\<lambda>f. StatOk), parseOctal = (\<lambda>s. Some 493),
      chmod = (\<lambda>f m. None), loadConfig = (\<lambda>f. Inr []), createFile = (\<lambda>f. None)\<rparr>"

subsection \<open>Resolving a bucket\<close>

text \<open>
  Modelled from the spec: the lookup of pkg/mapper (section 4.2 of the spec), which is not
  among the sources. A bucket is split at its dots and matched against the pattern of every
  rule; among the rules that match, a literal beats a wildcard at the first level where
  two patterns differ, and the rule declared first wins a tie. The rule set is the list
  of rules in file order.
\<close>

fun splitDots :: "string \<Rightarrow> string list" where
  "splitDots [] = [[]]"
| "splitDots (c # cs) =
     (if c = CHR ''.'' then [] # splitDots cs
      else (case splitDots cs of [] \<Rightarrow> [[c]] | s # ss \<Rightarrow> (c # s) # ss))"

text \<open>Modelled from the spec: the segments of a trailing capture, joined again.\<close>

fun joinDots :: "string list \<Rightarrow> string" where
  "joinDots [] = []"
| "joinDots [s] = s"
| "joinDots (s # ss) = s @ ''.'' @ joinDots ss"

text \<open>Modelled from the spec: matching a pattern against the segments of a bucket. The
  captures of a match are one per wildcard, the trailing wildcard taking what is left (one
  segment or more) as a single capture.\<close>

fun matchSegments :: "segment list \<Rightarrow> string list \<Rightarrow> string list option" where
  "matchSegments [] [] = Some []"
| "matchSegments [TrailingWildcard] (s # ss) = Some [joinDots (s # ss)]"
| "matchSegments (Literal l # ps) (s # ss) = (if l = s then matchSegments ps ss else None)"
| "matchSegments (SingleWildcard # ps) (s # ss) = map_option ((#) s) (matchSegments ps ss)"
| "matchSegments ps ss = None"

text \<open>Modelled from the spec: a node's distinguished wildcard slot, as opposed to its
  literal children.\<close>

fun isWildcard :: "segment \<Rightarrow> bool" where
  "isWildcard (Literal l) = False"
| "isWildcard SingleWildcard = True"
| "isWildcard TrailingWildcard = True"

text \<open>Modelled from the spec: literal children take precedence over the wildcard child,
  level by level.\<close>

fun moreSpecific :: "segment list \<Rightarrow> segment list \<Rightarrow> bool" where
  "moreSpecific (p # ps) (q # qs) =
     (if isWildcard p = isWildcard q then moreSpecific ps qs else isWildcard q)"
| "moreSpecific ps qs = False"

text \<open>Modelled from the spec: the most specific rule wins, the earliest declared on a
  tie.\<close>

fun bestRule :: "MappingRule list \<Rightarrow> MappingRule option" where
  "bestRule [] = None"
| "bestRule (r # rs) =
     (case bestRule rs of
        None \<Rightarrow> Some r
      | Some b \<Rightarrow> if moreSpecific (pattern b) (pattern r) then Some b else Some r)"

text \<open>Modelled from the spec: captures fill the placeholders of a template.\<close>

fun expand :: "string list \<Rightarrow> piece list \<Rightarrow> string" where
  "expand caps [] = []"
| "expand caps (Text t # ps) = t @ expand caps ps"
| "expand caps (Capture n # ps) =
     (if 0 < n \<and> n \<le> length caps then caps ! (n - 1) else []) @ expand caps ps"

text \<open>Modelled from the spec: the characters a metric name keeps, \<^verbatim>\<open>[A-Za-z0-9_]\<close>.\<close>

definition metricChar :: "char \<Rightarrow> bool" where
  "metricChar c =
     (let n = (of_char c :: nat) in
      (65 \<le> n \<and> n \<le> 90) \<or> (97 \<le> n \<and> n \<le> 122) \<or> (48 \<le> n \<and> n \<le> 57) \<or> c = CHR ''_'')"

text \<open>Modelled from the spec: every other character becomes \<^verbatim>\<open>_\<close>.\<close>

definition sanitize :: "string \<Rightarrow> string" where
  "sanitize bucket = map (\<lambda>c. if metricChar c then c else CHR ''_'') bucket"

text \<open>Modelled from the spec: the pass-through policy. The sanitised bucket is the metric
  name, there is no label, and the kind is the one of the protocol line (no override).\<close>

definition passThrough :: "string \<Rightarrow> MappingResult" where
  "passThrough bucket =
     \<lparr>resolvedName = sanitize bucket, labels = [], matched = False, resultKind = None\<rparr>"

text \<open>Modelled from the spec: the walk of the automaton compiled from a rule set.\<close>

definition walk :: "RuleSet \<Rightarrow> string \<Rightarrow> MappingResult" where
  "walk rs bucket =
     (case bestRule (filter (\<lambda>r. matchSegments (pattern r) (splitDots bucket) \<noteq> None) rs) of
        None \<Rightarrow> passThrough bucket
      | Some r \<Rightarrow>
          (let caps = (case matchSegments (pattern r) (splitDots bucket) of
                         None \<Rightarrow> [] | Some cs \<Rightarrow> cs)
           in \<lparr>resolvedName = expand caps (nameTemplate r),
               labels = map (\<lambda>(k, t). (k, expand caps t)) (labelTemplates r),
               matched = True, resultKind = kindOverride r\<rparr>))"

text \<open>
  Modelled from the spec: the cached lookup. The cache is probed first (a hit becomes the
  most recent entry); on a miss the rules are walked and the result is inserted, the least
  recently used entry leaving when the capacity is reached. The spec says nothing of a
  lookup on a mapper whose cache was never initialised: the model gives no result there.
\<close>

definition resolve :: "MetricMapper \<Rightarrow> string \<Rightarrow> (MappingResult \<times> MetricMapper) option" where
  "resolve m bucket =
     (case cache m of
        None \<Rightarrow> None
      | Some c \<Rightarrow>
          (case map_of (entries c) bucket of
             Some r \<Rightarrow>
               Some (r, m\<lparr>cache := Some (c\<lparr>entries :=
                              (bucket, r) # filter (\<lambda>e. fst e \<noteq> bucket) (entries c)\<rparr>)\<rparr>)
           | None \<Rightarrow>
               (let r = walk (rules m) bucket in
                Some (r, m\<lparr>cache := Some (c\<lparr>entries :=
                               take (nat (capacity c)) ((bucket, r) # entries c)\<rparr>)\<rparr>))))"

text \<open>Modelled from the spec: the lookups of a run of the exporter, one after the
  other.\<close>

fun resolveAll :: "MetricMapper \<Rightarrow> string list \<Rightarrow> (MappingResult list \<times> MetricMapper) option" where
  "resolveAll m [] = Some ([], m)"
| "resolveAll m (b # bs) =
     (case resolve m b of
        None \<Rightarrow> None
      | Some (r, m') \<Rightarrow>
          (case resolveAll m' bs of
             None \<Rightarrow> None
           | Some (rs, m'') \<Rightarrow> Some (r # rs, m'')))"

subsection \<open>The event queue\<close>

text \<open>
  Modelled from the spec: the event queue of the package (\<^verbatim>\<open>newEventQueue\<close>, its
  \<^verbatim>\<open>queue\<close> and flush, and the exporter's receive loop), which is not among the sources;
  section 4.3 of the spec describes it. What main.go fixes is kept as it is there: the
  channel carries batches (\<^verbatim>\<open>chan Events\<close>), its capacity is the flag
  \<^verbatim>\<open>statsd.event-queue-size\<close>, the queue flushes into it and the exporter receives from it.

  The batching worker accumulates events in \<open>pending\<close>; a flush sends the accumulated
  batch to the channel. A send on a full channel blocks: the action is not enabled and
  \<open>perform\<close> returns \<open>None\<close>. A channel of capacity 0 hands the batch to the receiver
  directly.
\<close>

record 'e queue =
  queueSize :: nat
  flushThreshold :: int
  pending :: "'e list"
  chan :: "'e list list"
  delivered :: "'e list list"

text \<open>Modelled from the spec: what happens to the queue. A listener enqueues an event,
  the flush interval elapses, or the exporter receives a batch.\<close>

datatype 'e action = Enqueue 'e | FlushTimer | Receive

text \<open>\<^verbatim>\<open>make(chan Events, *eventQueueSize)\<close> and \<^verbatim>\<open>newEventQueue(events, *eventFlushThreshold,
  *eventFlushInterval)\<close>, for a size that did not panic.\<close>

definition queueOf :: "flags \<Rightarrow> 'e queue" where
  "queueOf fl =
     \<lparr>queueSize = nat (eventQueueSize fl), flushThreshold = eventFlushThreshold fl,
      pending = [], chan = [], delivered = []\<rparr>"

text \<open>Modelled from the spec: a send on the channel of batches, which waits while the
  channel is full.\<close>

definition send :: "'e list \<Rightarrow> 'e queue \<Rightarrow> 'e queue option" where
  "send batch s =
     (if length (chan s) < queueSize s then Some (s\<lparr>chan := chan s @ [batch]\<rparr>)
      else if queueSize s = 0 then Some (s\<lparr>delivered := delivered s @ [batch]\<rparr>)
      else None)"

text \<open>Modelled from the spec: the flush of the accumulated batch.\<close>

definition flush :: "'e queue \<Rightarrow> 'e queue option" where
  "flush s = (case send (pending s) s of None \<Rightarrow> None | Some s' \<Rightarrow> Some (s'\<lparr>pending := []\<rparr>))"

text \<open>Modelled from the spec: an enqueue flushes when the threshold is reached, the timer
  flushes what has accumulated, and the exporter takes the oldest batch.\<close>

fun perform :: "'e action \<Rightarrow> 'e queue \<Rightarrow> 'e queue option" where
  "perform (Enqueue e) s =
     (let s1 = s\<lparr>pending := pending s @ [e]\<rparr> in
      if flushThreshold s \<le> int (length (pending s1)) then flush s1 else Some s1)"
| "perform FlushTimer s = flush s"
| "perform Receive s =
     (case chan s of
        [] \<Rightarrow> None
      | b # bs \<Rightarrow> Some (s\<lparr>chan := bs, delivered := delivered s @ [b]\<rparr>))"

text \<open>A schedule is a list of actions; it is feasible when every action is enabled in turn.\<close>

fun runQueue :: "'e action list \<Rightarrow> 'e queue \<Rightarrow> 'e queue option" where
  "runQueue [] s = Some s"
| "runQueue (a # as) s = (case perform a s of None \<Rightarrow> None | Some s' \<Rightarrow> runQueue as s')"

fun enqueued :: "'e action list \<Rightarrow> 'e list" where
  "enqueued [] = []"
| "enqueued (Enqueue e # as) = e # enqueued as"
| "enqueued (a # as) = enqueued as"


definition unflushed :: "'e queue \<Rightarrow> nat" where
  "unflushed s = length (concat (chan s)) + length (pending s)"


subsection \<open>The end of the process\<close>





section \<open>The shape of a run of main\<close>

text \<open>Each listener block only extends the trace, and never with an effect on the mapper
  or on the dump file.\<close>

lemma startUDP_trace:
  "\<exists>xs. stageTrace (startUDP fl w tr) = tr @ xs \<and> list_all (\<lambda>e. \<not> mapperEffect e) xs"
  by (auto simp: startUDP_def stageTrace_def logFatal_def Let_def split: sum.splits option.splits)

lemma startTCP_trace:
  "\<exists>xs. stageTrace (startTCP fl w tr) = tr @ xs \<and> list_all (\<lambda>e. \<not> mapperEffect e) xs"
  by (auto simp: startTCP_def stageTrace_def logFatal_def Let_def split: sum.splits option.splits)

lemma chmodSocket_trace:
  "\<exists>xs. chmodSocket fl w tr = tr @ xs \<and> list_all (\<lambda>e. \<not> mapperEffect e) xs"
  by (auto simp: chmodSocket_def Let_def split: option.splits)

lemma startUnixgram_trace:
  "\<exists>xs. stageTrace (startUnixgram fl w tr) = tr @ xs \<and> list_all (\<lambda>e. \<not> mapperEffect e) xs"
proof -
  obtain ys where ys: "chmodSocket fl w (tr @ [Bound Unixgram (statsdListenUnixgram fl), Defer ''uxgconn.Close'', GoListen Unixgram]) = (tr @ [Bound Unixgram (statsdListenUnixgram fl), Defer ''uxgconn.Close'', GoListen Unixgram]) @ ys" 
     "list_all (\<lambda>e. \<not> mapperEffect e) ys"
    using chmodSocket_trace by blast
  obtain zs where zs: "chmodSocket fl w (tr @ [Bound Unixgram (statsdListenUnixgram fl), Defer ''uxgconn.Close'', SetReadBuffer Unixgram (readBuffer fl), GoListen Unixgram]) = (tr @ [Bound Unixgram (statsdListenUnixgram fl), Defer ''uxgconn.Close'', SetReadBuffer Unixgram (readBuffer fl), GoListen Unixgram]) @ zs" 
     "list_all (\<lambda>e. \<not> mapperEffect e) zs"
    using chmodSocket_trace by blast
  show ?thesis
    using ys zs
    by (auto simp: startUnixgram_def stageTrace_def logFatal_def Let_def split: sum.splits option.splits)
qed

lemma startListeners_trace:
  "\<exists>xs. stageTrace (startListeners fl w tr) = tr @ xs \<and> list_all (\<lambda>e. \<not> mapperEffect e) xs"
proof (cases "startUDP fl w tr")
  case (Inl t)
  then show ?thesis using startUDP_trace[of fl w tr] by (simp add: startListeners_def stageTrace_def)
next
  case udp: (Inr tr2)
  then obtain xs where xs: "tr2 = tr @ xs" "list_all (\<lambda>e. \<not> mapperEffect e) xs"
    using startUDP_trace[of fl w tr] by (auto simp: stageTrace_def)
  show ?thesis
  proof (cases "startTCP fl w tr2")
    case (Inl t)
    then show ?thesis using startTCP_trace[of fl w tr2] udp xs
      by (auto simp add: startListeners_def stageTrace_def)
  next
    case tcp: (Inr tr3)
    then obtain ys where ys: "tr3 = tr2 @ ys" "list_all (\<lambda>e. \<not> mapperEffect e) ys"
      using startTCP_trace[of fl w tr2] by (auto simp: stageTrace_def)
    obtain zs where zs: "stageTrace (startUnixgram fl w tr3) = tr3 @ zs" "list_all (\<lambda>e. \<not> mapperEffect e) zs"
      using startUnixgram_trace by blast
    show ?thesis using udp tcp xs ys zs
      by (auto simp add: startListeners_def)
  qed
qed


lemma preamble_no_mapperEffect: "list_all (\<lambda>e. \<not> mapperEffect e) (preamble fl)"
  by (simp add: preamble_def banner_def)

lemma banner_no_mapperEffect: "list_all (\<lambda>e. \<not> mapperEffect e) (banner fl)"
  by (simp add: banner_def)

lemma main_cases:
  obtains
    (NoListener) "statsdListenUDP fl = []" "statsdListenTCP fl = []" "statsdListenUnixgram fl = []"
      "main fl w = Inl [Log Fatal ''At least one of UDP/TCP/Unixgram listeners must be specified.'']"
  | (QueuePanic) "main fl w = Inl (banner fl @ [Panic ''makechan: size out of range''])"
  | (ListenerFatal) xs where "startListeners fl w (preamble fl) = Inl (preamble fl @ xs)"
      "list_all (\<lambda>e. \<not> mapperEffect e) xs" "main fl w = Inl (preamble fl @ xs)"
  | (Listening) xs where "startListeners fl w (preamble fl) = Inr (preamble fl @ xs)"
      "list_all (\<lambda>e. \<not> mapperEffect e) xs"
      "main fl w =
         (case initMapper fl w (preamble fl @ xs) of
            Inl t \<Rightarrow> Inl t
          | Inr (tr5, m) \<Rightarrow>
              Inr \<lparr>trace = tr5 @ [GoConfigReloader (mappingConfig fl) (cacheSize fl),
                                  NewExporter, GoExporterListen, AwaitSignals],
                   mapper = m, configLoads = (\<lambda>_. 0)\<rparr>)"
proof -
  obtain xs where xs: "stageTrace (startListeners fl w (preamble fl)) = preamble fl @ xs"
      "list_all (\<lambda>e. \<not> mapperEffect e) xs"
    using startListeners_trace by blast
  show thesis
  proof (cases "statsdListenUDP fl = [] \<and> statsdListenTCP fl = [] \<and> statsdListenUnixgram fl = []")
    case True
    then show thesis using NoListener by (simp add: main_def logFatal_def)
  next
    case some: False
    show thesis
    proof (cases "eventQueueSize fl < 0")
      case True
      then show thesis using QueuePanic some by (simp add: main_def)
    next
      case False
      show thesis
      proof (cases "startListeners fl w (preamble fl)")
        case (Inl t)
        then show thesis using ListenerFatal[of xs] xs some False
          by (simp add: main_def stageTrace_def)
      next
        case (Inr t)
        then show thesis using Listening[of xs] xs some False
          by (simp add: main_def stageTrace_def)
      qed
    qed
  qed
qed

lemma initMapper_no_config:
  "mappingConfig fl = [] \<Longrightarrow>
   initMapper fl w tr =
     Inr (tr @ [NewMetricMapper, CallInitCache (cacheSize fl)], InitCache (cacheSize fl) newMetricMapper)"
  by (simp add: initMapper_def)

lemma initMapper_load_fails:
  "mappingConfig fl \<noteq> [] \<Longrightarrow> loadConfig w (mappingConfig fl) = Inl err \<Longrightarrow>
   initMapper fl w tr =
     Inl (tr @ [NewMetricMapper, CallInitFromFile (mappingConfig fl) (cacheSize fl),
                Log Fatal (''Error loading config:'' @ err)])"
  by (simp add: initMapper_def InitFromFile_def logFatal_def)

lemma initMapper_dump_fails:
  "mappingConfig fl \<noteq> [] \<Longrightarrow> loadConfig w (mappingConfig fl) = Inr rs \<Longrightarrow>
   dumpFSMPath fl \<noteq> [] \<Longrightarrow> createFile w (dumpFSMPath fl) = Some err \<Longrightarrow>
   initMapper fl w tr =
     Inl (tr @ [NewMetricMapper, CallInitFromFile (mappingConfig fl) (cacheSize fl),
                Log Fatal (''Error dumping FSM:'' @ err)])"
  by (simp add: initMapper_def InitFromFile_def logFatal_def dumpFSM_def)

text \<open>A process that serves has every configured listener bound and listening; a listen
  call that fails ends the listener blocks.\<close>

lemma initMapper_extends:
  "initMapper fl w tr = Inr (tr', m) \<Longrightarrow> set tr \<subseteq> set tr'"
  by (auto simp: initMapper_def InitFromFile_def dumpFSM_def logFatal_def Let_def
           split: sum.splits option.splits if_splits prod.splits)

lemma startUDP_serving:
  "startUDP fl w tr = Inr tr' \<Longrightarrow>
   set tr \<subseteq> set tr' \<and>
   (statsdListenUDP fl \<noteq> [] \<longrightarrow>
      Bound UDP (statsdListenUDP fl) \<in> set tr' \<and> GoListen UDP \<in> set tr')"
  by (auto simp: startUDP_def logFatal_def Let_def split: sum.splits option.splits if_splits)

lemma startTCP_serving:
  "startTCP fl w tr = Inr tr' \<Longrightarrow>
   set tr \<subseteq> set tr' \<and>
   (statsdListenTCP fl \<noteq> [] \<longrightarrow>
      Bound TCP (statsdListenTCP fl) \<in> set tr' \<and> GoListen TCP \<in> set tr')"
  by (auto simp: startTCP_def logFatal_def Let_def split: sum.splits option.splits if_splits)

lemma chmodSocket_extends: "set tr \<subseteq> set (chmodSocket fl w tr)"
  using chmodSocket_trace[of fl w tr] by auto

lemma startUnixgram_serving:
  "startUnixgram fl w tr = Inr tr' \<Longrightarrow>
   set tr \<subseteq> set tr' \<and>
   (statsdListenUnixgram fl \<noteq> [] \<longrightarrow>
      Bound Unixgram (statsdListenUnixgram fl) \<in> set tr' \<and> GoListen Unixgram \<in> set tr')"
  using chmodSocket_extends[of "tr @ [Bound Unixgram (statsdListenUnixgram fl), Defer ''uxgconn.Close'', GoListen Unixgram]" fl w]
    chmodSocket_extends[of "tr @ [Bound Unixgram (statsdListenUnixgram fl), Defer ''uxgconn.Close'', SetReadBuffer Unixgram (readBuffer fl), GoListen Unixgram]" fl w]
  by (auto simp: startUnixgram_def logFatal_def Let_def split: sum.splits option.splits if_splits)

lemma startListeners_serving:
  assumes "startListeners fl w tr = Inr tr'"
  shows "configured T fl \<noteq> [] \<longrightarrow> Bound T (configured T fl) \<in> set tr' \<and> GoListen T \<in> set tr'"
proof -
  obtain tr2 tr3 where s: "startUDP fl w tr = Inr tr2" "startTCP fl w tr2 = Inr tr3"
      "startUnixgram fl w tr3 = Inr tr'"
    using assms by (auto simp: startListeners_def split: sum.splits)
  note u = startUDP_serving[OF s(1)] and t = startTCP_serving[OF s(2)]
    and x = startUnixgram_serving[OF s(3)]
  show ?thesis
  proof (cases T)
    case UDP
    then show ?thesis using u t x by auto
  next
    case TCP
    then show ?thesis using t x by auto
  next
    case Unixgram
    then show ?thesis using x by auto
  qed
qed

lemma startListeners_fails:
  assumes "listenFails T fl w"
  shows "isl (startListeners fl w tr)"
proof (cases T)
  case UDP
  then have "isl (startUDP fl w tr)" using assms
    by (auto simp: startUDP_def logFatal_def split: sum.splits option.splits)
  then show ?thesis by (auto simp: startListeners_def split: sum.splits)
next
  case TCP
  then have t: "isl (startTCP fl w tr2)" for tr2 using assms
    by (auto simp: startTCP_def logFatal_def split: sum.splits option.splits)
  show ?thesis
  proof (cases "startUDP fl w tr")
    case (Inl a)
    then show ?thesis by (simp add: startListeners_def)
  next
    case (Inr tr2)
    then show ?thesis using t[of tr2] by (auto simp: startListeners_def split: sum.splits)
  qed
next
  case Unixgram
  then have x: "isl (startUnixgram fl w tr3)" for tr3 using assms
    by (auto simp: startUnixgram_def logFatal_def split: sum.splits option.splits)
  show ?thesis
  proof (cases "startUDP fl w tr")
    case (Inl a)
    then show ?thesis by (simp add: startListeners_def)
  next
    case u: (Inr tr2)
    show ?thesis
    proof (cases "startTCP fl w tr2")
      case (Inl a)
      then show ?thesis using u by (simp add: startListeners_def)
    next
      case (Inr tr3)
      then show ?thesis using u x[of tr3] by (simp add: startListeners_def)
    qed
  qed
qed

lemmas startup_defs =
  main_def preamble_def banner_def startListeners_def startUDP_def startTCP_def
  startUnixgram_def chmodSocket_def udpAddrFromString_def tcpAddrFromString_def
  ipPortFromString_def initMapper_def InitFromFile_def InitCache_def dumpFSM_def
  logFatal_def traceOf_def newMetricMapper_def defaultFlags_def obligingWorld_def

section \<open>Startup\<close>

text \<open>
  C8. With the UDP, the TCP and the Unixgram address all empty, the process ends with
  the fatal message before anything else happens: the trace holds that message alone, so
  no queue, no mapper and no exporter was created, whatever the world and the other flags.
\<close>

theorem no_listener_configured_is_fatal:
  assumes "statsdListenUDP fl = []" and "statsdListenTCP fl = []"
    and "statsdListenUnixgram fl = []"
  shows "main fl w = Inl [Log Fatal ''At least one of UDP/TCP/Unixgram listeners must be specified.'']"
  using assms by (simp add: main_def logFatal_def)

theorem no_listener_configured_witness:
  "main (defaultFlags\<lparr>statsdListenUDP := [], statsdListenTCP := []\<rparr>) obligingWorld =
     Inl [Log Fatal ''At least one of UDP/TCP/Unixgram listeners must be specified.'']"
  using no_listener_configured_is_fatal
          [of "defaultFlags\<lparr>statsdListenUDP := [], statsdListenTCP := []\<rparr>" obligingWorld]
  by (simp add: defaultFlags_def)

text \<open>
  C10. With no mapping configuration the dump flag is not looked at: whatever path it
  holds, the run is the run without it (so nothing is reported about it), and no file is
  created or written.
\<close>

theorem dump_flag_ignored_without_mapping_config:
  assumes "mappingConfig fl = []"
  shows "main (fl\<lparr>dumpFSMPath := d\<rparr>) w = main fl w \<and>
         (\<forall>f. CreateFile f \<notin> set (traceOf (main fl w))) \<and>
         (\<forall>f rs. WriteFSM f rs \<notin> set (traceOf (main fl w)))"
proof -
  have udp: "startUDP (fl\<lparr>dumpFSMPath := d\<rparr>) w tr = startUDP fl w tr" for tr
    by (simp add: startUDP_def Let_def cong: sum.case_cong option.case_cong if_cong)
  have tcp: "startTCP (fl\<lparr>dumpFSMPath := d\<rparr>) w tr = startTCP fl w tr" for tr
    by (simp add: startTCP_def Let_def cong: sum.case_cong option.case_cong if_cong)
  have chm: "chmodSocket (fl\<lparr>dumpFSMPath := d\<rparr>) w tr = chmodSocket fl w tr" for tr
    by (simp add: chmodSocket_def Let_def cong: sum.case_cong option.case_cong if_cong)
  have uxg: "startUnixgram (fl\<lparr>dumpFSMPath := d\<rparr>) w tr = startUnixgram fl w tr" for tr
    by (simp add: startUnixgram_def chm Let_def cong: sum.case_cong option.case_cong if_cong)
  have same: "startListeners (fl\<lparr>dumpFSMPath := d\<rparr>) w tr = startListeners fl w tr" for tr
    by (simp add: startListeners_def udp tcp uxg cong: sum.case_cong)
  have pre: "preamble (fl\<lparr>dumpFSMPath := d\<rparr>) = preamble fl"
    by (simp add: preamble_def banner_def)
  have ban: "banner (fl\<lparr>dumpFSMPath := d\<rparr>) = banner fl"
    by (simp add: banner_def)
  have im: "initMapper (fl\<lparr>dumpFSMPath := d\<rparr>) w tr = initMapper fl w tr" for tr
    using assms by (simp add: initMapper_no_config)
  have eq: "main (fl\<lparr>dumpFSMPath := d\<rparr>) w = main fl w"
    by (simp add: main_def same pre ban im cong: sum.case_cong)
  have "\<not> (\<exists>f. e = CreateFile f) \<and> \<not> (\<exists>f rs. e = WriteFSM f rs)"
    if "e \<in> set (traceOf (main fl w))" for e
  proof (cases rule: main_cases[of fl w])
    case NoListener
    then show ?thesis using that by (auto simp: traceOf_def)
  next
    case QueuePanic
    then show ?thesis using that by (auto simp: traceOf_def banner_def)
  next
    case (ListenerFatal xs)
    then have "list_all (\<lambda>e. \<not> mapperEffect e) (traceOf (main fl w))"
      using preamble_no_mapperEffect by (simp add: traceOf_def)
    then have "\<not> mapperEffect e" using that by (simp add: list_all_iff)
    then show ?thesis by auto
  next
    case (Listening xs)
    then have "traceOf (main fl w) = preamble fl @ xs @ [NewMetricMapper, CallInitCache (cacheSize fl),
        GoConfigReloader (mappingConfig fl) (cacheSize fl), NewExporter, GoExporterListen, AwaitSignals]"
      using assms by (simp add: initMapper_no_config traceOf_def)
    moreover have "\<not> mapperEffect e' \<Longrightarrow> \<not> (\<exists>f. e' = CreateFile f) \<and> \<not> (\<exists>f rs. e' = WriteFSM f rs)" for e'
      by auto
    ultimately show ?thesis using that Listening(2) preamble_no_mapperEffect[of fl]
      by (auto simp: list_all_iff)
  qed
  then show ?thesis using eq by blast
qed

theorem dump_flag_ignored_witness:
  "mappingConfig defaultFlags = [] \<and>
   main (defaultFlags\<lparr>dumpFSMPath := ''fsm.dot''\<rparr>) obligingWorld = main defaultFlags obligingWorld \<and>
   (\<forall>f. CreateFile f \<notin> set (traceOf (main defaultFlags obligingWorld))) \<and>
   (\<forall>f rs. WriteFSM f rs \<notin> set (traceOf (main defaultFlags obligingWorld))) \<and>
   traceOf (main (defaultFlags\<lparr>dumpFSMPath := ''fsm.dot''\<rparr>) obligingWorld) =
     preamble defaultFlags @
     [Bound UDP '':9125'', GoListen UDP, Bound TCP '':9125'', Defer ''tconn.Close'', GoListen TCP,
      NewMetricMapper, CallInitCache 1000, GoConfigReloader [] 1000, NewExporter,
      GoExporterListen, AwaitSignals]"
proof -
  have cfg: "mappingConfig defaultFlags = []"
    by (simp add: defaultFlags_def)
  have tr: "traceOf (main defaultFlags obligingWorld) =
     preamble defaultFlags @
     [Bound UDP '':9125'', GoListen UDP, Bound TCP '':9125'', Defer ''tconn.Close'', GoListen TCP,
      NewMetricMapper, CallInitCache 1000, GoConfigReloader [] 1000, NewExporter,
      GoExporterListen, AwaitSignals]"
    by (simp add: startup_defs)
  show ?thesis
    using dump_flag_ignored_without_mapping_config [OF cfg, of "''fsm.dot''" obligingWorld] cfg tr
    by simp
qed

text \<open>
  C4. For each transport: when it is configured and its listen call returns an error, the
  process terminates; and a process that reaches the serving state has bound and started
  every configured listener, so it never runs with a configured listener absent.
\<close>

theorem listener_failure_is_fatal:
  "(listenFails T fl w \<longrightarrow> isl (main fl w)) \<and>
   (\<forall>p. main fl w = Inr p \<longrightarrow> configured T fl \<noteq> [] \<longrightarrow>
        Bound T (configured T fl) \<in> set (trace p) \<and> GoListen T \<in> set (trace p))"
proof (cases rule: main_cases[of fl w])
  case NoListener
  then show ?thesis by simp
next
  case QueuePanic
  then show ?thesis by simp
next
  case (ListenerFatal xs)
  then show ?thesis by simp
next
  case (Listening xs)
  have "\<not> listenFails T fl w"
    using startListeners_fails[of T fl w "preamble fl"] Listening(1) by auto
  moreover have "Bound T (configured T fl) \<in> set (trace p) \<and> GoListen T \<in> set (trace p)"
    if serving: "main fl w = Inr p" and conf: "configured T fl \<noteq> []" for p
  proof (cases "initMapper fl w (preamble fl @ xs)")
    case (Inl t)
    then show ?thesis using serving Listening(3) by simp
  next
    case (Inr r)
    obtain tr5 m where r: "r = (tr5, m)" by (cases r)
    have p: "trace p = tr5 @ [GoConfigReloader (mappingConfig fl) (cacheSize fl),
                              NewExporter, GoExporterListen, AwaitSignals]"
      using serving Listening(3) Inr r by auto
    have "set (preamble fl @ xs) \<subseteq> set tr5"
      using initMapper_extends[of fl w "preamble fl @ xs" tr5 m] Inr r by simp
    then show ?thesis using startListeners_serving[OF Listening(1), of T] conf p by auto
  qed
  ultimately show ?thesis by blast
qed

theorem listener_failure_witness:
  "listenFails TCP defaultFlags (obligingWorld\<lparr>listenTCP := (\<lambda>a. Some ''address already in use'')\<rparr>) \<and>
   main defaultFlags (obligingWorld\<lparr>listenTCP := (\<lambda>a. Some ''address already in use'')\<rparr>) =
     Inl (preamble defaultFlags @
          [Bound UDP '':9125'', GoListen UDP, Log Fatal ''address already in use'']) \<and>
   configured UDP defaultFlags \<noteq> [] \<and>
   Bound UDP '':9125'' \<in> set (traceOf (main defaultFlags obligingWorld)) \<and>
   GoListen UDP \<in> set (traceOf (main defaultFlags obligingWorld))"
proof -
  let ?w = "obligingWorld\<lparr>listenTCP := (\<lambda>a. Some ''address already in use'')\<rparr>"
  have f: "listenFails TCP defaultFlags ?w"
    by (simp add: startup_defs)
  have "isl (main defaultFlags ?w)"
    using listener_failure_is_fatal [of TCP defaultFlags ?w] f by blast
  moreover have "main defaultFlags ?w =
     Inl (preamble defaultFlags @
          [Bound UDP '':9125'', GoListen UDP, Log Fatal ''address already in use''])"
    by (simp add: startup_defs)
  moreover obtain p where p: "main defaultFlags obligingWorld = Inr p"
    by (simp add: startup_defs)
  moreover have c: "configured UDP defaultFlags \<noteq> []"
    by (simp add: defaultFlags_def)
  moreover have "Bound UDP (configured UDP defaultFlags) \<in> set (trace p) \<and> GoListen UDP \<in> set (trace p)"
    using listener_failure_is_fatal [of UDP defaultFlags obligingWorld] p c by blast
  ultimately show ?thesis
    using f by (simp add: traceOf_def defaultFlags_def)
qed

text \<open>
  C2. When a mapping configuration is requested and loading it fails, the process
  terminates; the default policy (the branch that only initialises the cache) is never
  taken; and a run that got as far as loading the file ends with the fatal message
  "Error loading config".
\<close>

theorem config_load_failure_is_fatal:
  assumes "mappingConfig fl \<noteq> []" and "loadConfig w (mappingConfig fl) = Inl err"
  shows "isl (main fl w) \<and>
         (\<forall>n. CallInitCache n \<notin> set (traceOf (main fl w))) \<and>
         (CallInitFromFile (mappingConfig fl) (cacheSize fl) \<in> set (traceOf (main fl w)) \<longrightarrow>
            last (traceOf (main fl w)) = Log Fatal (''Error loading config:'' @ err))"
proof (cases rule: main_cases[of fl w])
  case NoListener
  then show ?thesis by (simp add: traceOf_def)
next
  case QueuePanic
  then show ?thesis by (auto simp: traceOf_def banner_def)
next
  case (ListenerFatal xs)
  have "\<not> mapperEffect e" if "e \<in> set (preamble fl @ xs)" for e
    using that ListenerFatal(2) preamble_no_mapperEffect[of fl] by (auto simp: list_all_iff)
  then have "CallInitCache n \<notin> set (preamble fl @ xs)"
     "CallInitFromFile f n \<notin> set (preamble fl @ xs)" for f n
    by fastforce+
  then show ?thesis using ListenerFatal(3) by (simp add: traceOf_def)
next
  case (Listening xs)
  have m: "main fl w = Inl ((preamble fl @ xs) @ [NewMetricMapper,
      CallInitFromFile (mappingConfig fl) (cacheSize fl), Log Fatal (''Error loading config:'' @ err)])"
    using Listening(3) initMapper_load_fails[OF assms] by simp
  have "\<not> mapperEffect e" if "e \<in> set (preamble fl @ xs)" for e
    using that Listening(2) preamble_no_mapperEffect[of fl] by (auto simp: list_all_iff)
  then have "CallInitCache n \<notin> set (preamble fl @ xs)" for n
    by fastforce
  then show ?thesis using m by (simp add: traceOf_def)
qed

theorem config_load_failure_witness:
  "mappingConfig (defaultFlags\<lparr>mappingConfig := ''m.yml''\<rparr>) \<noteq> [] \<and>
   loadConfig (obligingWorld\<lparr>loadConfig := (\<lambda>f. Inl ''no such file'')\<rparr>) ''m.yml'' = Inl ''no such file'' \<and>
   isl (main (defaultFlags\<lparr>mappingConfig := ''m.yml''\<rparr>)
             (obligingWorld\<lparr>loadConfig := (\<lambda>f. Inl ''no such file'')\<rparr>)) \<and>
   last (traceOf (main (defaultFlags\<lparr>mappingConfig := ''m.yml''\<rparr>)
                       (obligingWorld\<lparr>loadConfig := (\<lambda>f. Inl ''no such file'')\<rparr>))) =
     Log Fatal ''Error loading config:no such file''"
proof -
  let ?fl = "defaultFlags\<lparr>mappingConfig := ''m.yml''\<rparr>"
  let ?w = "obligingWorld\<lparr>loadConfig := (\<lambda>f. Inl ''no such file'')\<rparr>"
  have h1: "mappingConfig ?fl \<noteq> []" by simp
  have h2: "loadConfig ?w (mappingConfig ?fl) = Inl ''no such file''" by simp
  have called: "CallInitFromFile (mappingConfig ?fl) (cacheSize ?fl) \<in> set (traceOf (main ?fl ?w))"
    by (simp add: startup_defs)
  show ?thesis
    using config_load_failure_is_fatal [OF h1 h2] called by simp
qed

section \<open>The diagnostic dump\<close>

text \<open>
  C1, as the code has it. The claim says a failed dump leaves the process serving. In the
  source the error of \<^verbatim>\<open>dumpFSM\<close> goes to \<^verbatim>\<open>log.Fatal\<close>: with a mapping file that loads and
  a dump file that cannot be created the process ends with "Error dumping FSM".
\<close>

theorem dump_failure_nonfatal_counterexample:
  "main (defaultFlags\<lparr>mappingConfig := ''m.yml'', dumpFSMPath := ''fsm.dot''\<rparr>)
        (obligingWorld\<lparr>createFile := (\<lambda>f. Some ''permission denied'')\<rparr>) =
   Inl (preamble defaultFlags @
        [Bound UDP '':9125'', GoListen UDP, Bound TCP '':9125'', Defer ''tconn.Close'', GoListen TCP,
         NewMetricMapper, CallInitFromFile ''m.yml'' 1000,
         Log Fatal ''Error dumping FSM:permission denied''])"
  by (simp add: startup_defs)

text \<open>
  C1, amended. When the dump is requested with a mapping configuration and the dump file
  cannot be created, the process terminates; a run that got as far as loading the
  configuration successfully ends with the fatal message "Error dumping FSM".
\<close>

theorem dump_failure_is_fatal:
  assumes "mappingConfig fl \<noteq> []" and "dumpFSMPath fl \<noteq> []"
    and "createFile w (dumpFSMPath fl) = Some err"
  shows "isl (main fl w) \<and>
         (\<forall>rs. loadConfig w (mappingConfig fl) = Inr rs \<longrightarrow>
            CallInitFromFile (mappingConfig fl) (cacheSize fl) \<in> set (traceOf (main fl w)) \<longrightarrow>
            last (traceOf (main fl w)) = Log Fatal (''Error dumping FSM:'' @ err))"
proof (cases rule: main_cases[of fl w])
  case NoListener
  then show ?thesis by (simp add: traceOf_def)
next
  case QueuePanic
  then show ?thesis by (auto simp: traceOf_def banner_def)
next
  case (ListenerFatal xs)
  have "\<not> mapperEffect e" if "e \<in> set (preamble fl @ xs)" for e
    using that ListenerFatal(2) preamble_no_mapperEffect[of fl] by (auto simp: list_all_iff)
  then have "CallInitFromFile f n \<notin> set (preamble fl @ xs)" for f n
    by fastforce
  then show ?thesis using ListenerFatal(3) by (simp add: traceOf_def)
next
  case (Listening xs)
  show ?thesis
  proof (cases "loadConfig w (mappingConfig fl)")
    case (Inl e)
    then show ?thesis using Listening(3) initMapper_load_fails[OF assms(1) Inl] by simp
  next
    case (Inr rs)
    then show ?thesis
      using Listening(3) initMapper_dump_fails[OF assms(1) Inr assms(2,3)]
      by (simp add: traceOf_def)
  qed
qed

theorem dump_failure_witness:
  "mappingConfig (defaultFlags\<lparr>mappingConfig := ''m.yml'', dumpFSMPath := ''fsm.dot''\<rparr>) \<noteq> [] \<and>
   dumpFSMPath (defaultFlags\<lparr>mappingConfig := ''m.yml'', dumpFSMPath := ''fsm.dot''\<rparr>) \<noteq> [] \<and>
   isl (main (defaultFlags\<lparr>mappingConfig := ''m.yml'', dumpFSMPath := ''fsm.dot''\<rparr>)
             (obligingWorld\<lparr>createFile := (\<lambda>f. Some ''permission denied'')\<rparr>)) \<and>
   last (traceOf (main (defaultFlags\<lparr>mappingConfig := ''m.yml'', dumpFSMPath := ''fsm.dot''\<rparr>)
                       (obligingWorld\<lparr>createFile := (\<lambda>f. Some ''permission denied'')\<rparr>))) =
     Log Fatal ''Error dumping FSM:permission denied''"
proof -
  let ?fl = "defaultFlags\<lparr>mappingConfig := ''m.yml'', dumpFSMPath := ''fsm.dot''\<rparr>"
  let ?w = "obligingWorld\<lparr>createFile := (\<lambda>f. Some ''permission denied'')\<rparr>"
  have h1: "mappingConfig ?fl \<noteq> []" by simp
  have h2: "dumpFSMPath ?fl \<noteq> []" by simp
  have h3: "createFile ?w (dumpFSMPath ?fl) = Some ''permission denied''" by simp
  have loaded: "loadConfig ?w (mappingConfig ?fl) = Inr []"
    by (simp add: obligingWorld_def)
  have called: "CallInitFromFile (mappingConfig ?fl) (cacheSize ?fl) \<in> set (traceOf (main ?fl ?w))"
    by (simp add: startup_defs)
  show ?thesis
    using dump_failure_is_fatal [OF h1 h2 h3] loaded called by simp
qed

section \<open>The reload loop\<close>

lemma configReloader_snoc:
  "configReloader fileName csize (ws @ [w]) p =
   reloadOnSignal fileName csize w (configReloader fileName csize ws p)"
  by (induction ws arbitrary: p) simp_all

lemma run_snoc:
  "run fl w ws = Inr q \<Longrightarrow>
   run fl w (ws @ [w']) = Inr (reloadOnSignal (mappingConfig fl) (cacheSize fl) w' q)"
  by (auto simp: run_def configReloader_snoc split: sum.splits)

lemma reloadOnSignal_no_config:
  "reloadOnSignal [] csize w p =
   p\<lparr>trace := trace p @ [Log Warn ''Received SIGHUP but no mapping config to reload'']\<rparr>"
  by (simp add: reloadOnSignal_def)

lemma configReloader_no_config:
  "configReloader [] csize ws p =
   p\<lparr>trace := trace p @
        replicate (length ws) (Log Warn ''Received SIGHUP but no mapping config to reload'')\<rparr>"
proof (induction ws arbitrary: p)
  case Nil
  then show ?case by simp
next
  case (Cons w ws)
  show ?case
    by (simp add: Cons.IH reloadOnSignal_no_config replicate_append_same)
qed

lemma reloadOnSignal_failure:
  assumes "fileName \<noteq> []" and "loadConfig w fileName = Inl err"
  shows "reloadOnSignal fileName csize w p =
     p\<lparr>trace := trace p @ [Log Info ''Received SIGHUP, attempting reload'',
                            CallInitFromFile fileName csize,
                            Log Error (''Error reloading config:'' @ err)],
       configLoads := (configLoads p)(''failure'' := Suc (configLoads p ''failure''))\<rparr>"
  using assms by (simp add: reloadOnSignal_def InitFromFile_def)

lemma reloadOnSignal_success:
  assumes "fileName \<noteq> []" and "loadConfig w fileName = Inr rs"
  shows "reloadOnSignal fileName csize w p =
     p\<lparr>trace := trace p @ [Log Info ''Received SIGHUP, attempting reload'',
                            CallInitFromFile fileName csize,
                            Log Info ''Config reloaded successfully''],
       mapper := (mapper p)\<lparr>rules := rs, cache := Some \<lparr>capacity = csize, entries = []\<rparr>\<rparr>,
       configLoads := (configLoads p)(''success'' := Suc (configLoads p ''success''))\<rparr>"
  using assms by (simp add: reloadOnSignal_def InitFromFile_def)

text \<open>
  C9. With no mapping file configured every SIGHUP only logs a warning: after any number
  of signals the state is the one before them but for one warning per signal, so the mapper
  and both counters of \<^verbatim>\<open>configLoads\<close> are untouched, and the loop has gone on to the next
  signal each time. A process started without a mapping configuration runs the reloader
  with the empty file name.
\<close>

theorem sighup_without_config_only_warns:
  "configReloader [] csize ws p =
     p\<lparr>trace := trace p @
          replicate (length ws) (Log Warn ''Received SIGHUP but no mapping config to reload'')\<rparr> \<and>
   mapper (configReloader [] csize ws p) = mapper p \<and>
   configLoads (configReloader [] csize ws p) = configLoads p \<and>
   (mappingConfig fl = [] \<and> main fl w = Inr p \<longrightarrow>
      run fl w ws =
        Inr (p\<lparr>trace := trace p @
               replicate (length ws) (Log Warn ''Received SIGHUP but no mapping config to reload'')\<rparr>))"
  by (simp add: configReloader_no_config run_def)

theorem sighup_without_config_witness:
  "mappingConfig defaultFlags = [] \<and>
   (case main defaultFlags obligingWorld of
      Inl t \<Rightarrow> False
    | Inr p \<Rightarrow>
        run defaultFlags obligingWorld [obligingWorld, obligingWorld] =
          Inr (p\<lparr>trace := trace p @
                  [Log Warn ''Received SIGHUP but no mapping config to reload'',
                   Log Warn ''Received SIGHUP but no mapping config to reload'']\<rparr>))"
proof -
  obtain p where p: "main defaultFlags obligingWorld = Inr p"
    by (simp add: startup_defs)
  have c: "mappingConfig defaultFlags = []"
    by (simp add: defaultFlags_def)
  show ?thesis
    using sighup_without_config_only_warns
            [of 1000 "[obligingWorld, obligingWorld]" p defaultFlags obligingWorld] p c
    by simp
qed

text \<open>
  C3. In a process started with a mapping file, each SIGHUP taken from the channel calls
  \<^verbatim>\<open>InitFromFile\<close> with the path and the cache size of the start, and logs nothing fatal.
  When the load fails the mapper is the one before the signal, the counter of the outcome
  \<^verbatim>\<open>failure\<close> has grown by one and no other counter has changed; when it succeeds the new
  rules are in place, the counter of \<^verbatim>\<open>success\<close> has grown by one and no other has changed.
\<close>

theorem reload_on_sighup:
  assumes conf: "mappingConfig fl \<noteq> []" and before: "run fl w ws = Inr q"
    and after: "q' = reloadOnSignal (mappingConfig fl) (cacheSize fl) w' q"
  shows "run fl w (ws @ [w']) = Inr q' \<and>
         (\<exists>lvl msg. trace q' = trace q @ [Log Info ''Received SIGHUP, attempting reload'',
                       CallInitFromFile (mappingConfig fl) (cacheSize fl), Log lvl msg] \<and> lvl \<noteq> Fatal) \<and>
         (\<forall>err. loadConfig w' (mappingConfig fl) = Inl err \<longrightarrow>
            mapper q' = mapper q \<and>
            configLoads q' ''failure'' = configLoads q ''failure'' + 1 \<and>
            (\<forall>l. l \<noteq> ''failure'' \<longrightarrow> configLoads q' l = configLoads q l)) \<and>
         (\<forall>rs. loadConfig w' (mappingConfig fl) = Inr rs \<longrightarrow>
            rules (mapper q') = rs \<and>
            configLoads q' ''success'' = configLoads q ''success'' + 1 \<and>
            (\<forall>l. l \<noteq> ''success'' \<longrightarrow> configLoads q' l = configLoads q l))"
proof (cases "loadConfig w' (mappingConfig fl)")
  case (Inl err)
  show ?thesis
    using run_snoc[OF before, of w'] after Inl
    by (simp add: reloadOnSignal_failure[OF conf Inl])
next
  case (Inr rs)
  show ?thesis
    using run_snoc[OF before, of w'] after Inr
    by (simp add: reloadOnSignal_success[OF conf Inr])
qed

theorem reload_on_sighup_witness:
  "mappingConfig (defaultFlags\<lparr>mappingConfig := ''m.yml''\<rparr>) \<noteq> [] \<and>
   (case run (defaultFlags\<lparr>mappingConfig := ''m.yml''\<rparr>) obligingWorld [] of
      Inl t \<Rightarrow> False
    | Inr q \<Rightarrow>
        (case run (defaultFlags\<lparr>mappingConfig := ''m.yml''\<rparr>) obligingWorld
                  [obligingWorld\<lparr>loadConfig := (\<lambda>f. Inl ''bad yaml'')\<rparr>] of
           Inl t \<Rightarrow> False
         | Inr q' \<Rightarrow>
             mapper q' = mapper q \<and> configLoads q' ''failure'' = 1 \<and>
             configLoads q' ''success'' = 0))"
proof -
  let ?fl = "defaultFlags\<lparr>mappingConfig := ''m.yml''\<rparr>"
  let ?w' = "obligingWorld\<lparr>loadConfig := (\<lambda>f. Inl ''bad yaml'')\<rparr>"
  have conf: "mappingConfig ?fl \<noteq> []" by simp
  obtain q where q: "run ?fl obligingWorld [] = Inr q" and zero: "configLoads q = (\<lambda>_. 0)"
    by (simp add: run_def startup_defs)
  define q' where "q' = reloadOnSignal (mappingConfig ?fl) (cacheSize ?fl) ?w' q"
  have fails: "loadConfig ?w' (mappingConfig ?fl) = Inl ''bad yaml''" by simp
  have "run ?fl obligingWorld ([] @ [?w']) = Inr q' \<and> mapper q' = mapper q \<and>
        configLoads q' ''failure'' = configLoads q ''failure'' + 1 \<and>
        configLoads q' ''success'' = configLoads q ''success''"
    using reload_on_sighup [OF conf q q'_def] fails by auto
  then show ?thesis using q zero by simp
qed

section \<open>The default policy\<close>

lemma walk_no_rules: "walk [] bucket = passThrough bucket"
  by (simp add: walk_def)

lemma resolve_pass_through:
  assumes "rules m = []" and "cache m = Some c"
    and "\<forall>e \<in> set (entries c). snd e = passThrough (fst e)"
  shows "\<exists>m' c'. resolve m b = Some (passThrough b, m') \<and> rules m' = [] \<and> cache m' = Some c' \<and>
           (\<forall>e \<in> set (entries c'). snd e = passThrough (fst e))"
proof (cases "map_of (entries c) b")
  case None
  have "\<forall>e \<in> set (take (nat (capacity c)) ((b, passThrough b) # entries c)).
          snd e = passThrough (fst e)"
    using assms(3) by (auto dest!: in_set_takeD)
  then show ?thesis
    using assms(1,2) None by (simp add: resolve_def walk_no_rules Let_def)
next
  case (Some r)
  then have "(b, r) \<in> set (entries c)" by (rule map_of_SomeD)
  then have r: "r = passThrough b" using assms(3) by fastforce
  have "\<forall>e \<in> set ((b, r) # filter (\<lambda>e. fst e \<noteq> b) (entries c)). snd e = passThrough (fst e)"
    using assms(3) r by auto
  then show ?thesis
    using assms(1,2) Some r by (simp add: resolve_def Let_def)
qed

lemma resolveAll_pass_through:
  assumes "rules m = []" and "cache m = Some c"
    and "\<forall>e \<in> set (entries c). snd e = passThrough (fst e)"
  shows "\<exists>m'. resolveAll m bs = Some (map passThrough bs, m')"
  using assms
proof (induction bs arbitrary: m c)
  case Nil
  then show ?case by simp
next
  case (Cons b bs)
  obtain m' c' where s: "resolve m b = Some (passThrough b, m')" "rules m' = []"
      "cache m' = Some c'" "\<forall>e \<in> set (entries c'). snd e = passThrough (fst e)"
    using resolve_pass_through[OF Cons.prems] by blast
  obtain m'' where "resolveAll m' bs = Some (map passThrough bs, m'')"
    using Cons.IH[OF s(2,3,4)] by blast
  then show ?case using s(1) by simp
qed

lemma resolveAll_after_InitCache:
  "map_option fst (resolveAll (InitCache csize newMetricMapper) bs) = Some (map passThrough bs)"
proof -
  obtain m' where "resolveAll (InitCache csize newMetricMapper) bs = Some (map passThrough bs, m')"
    using resolveAll_pass_through[of "InitCache csize newMetricMapper" "\<lparr>capacity = csize, entries = []\<rparr>" bs]
    by (auto simp: InitCache_def newMetricMapper_def)
  then show ?thesis by simp
qed

lemma filter_mapperEffect_none:
  "list_all (\<lambda>e. \<not> mapperEffect e) xs \<Longrightarrow> filter mapperEffect xs = []"
  by (simp add: filter_empty_conv list_all_iff)

text \<open>
  C5. Without a mapping configuration file no run ever calls \<^verbatim>\<open>InitFromFile\<close>, at
  startup or on a later SIGHUP. In a process that serves, the only effects on the mapper
  are its creation and \<^verbatim>\<open>InitCache\<close> with the configured cache size, the mapper is the new
  mapper with that cache and no rule, and every sequence of lookups resolves each bucket
  by the pass-through policy.
\<close>

theorem no_config_is_pass_through:
  assumes "mappingConfig fl = []"
  shows "(\<forall>f n. CallInitFromFile f n \<notin> set (traceOf (run fl w ws))) \<and>
         (\<forall>q. run fl w ws = Inr q \<longrightarrow>
              filter mapperEffect (trace q) = [NewMetricMapper, CallInitCache (cacheSize fl)] \<and>
              mapper q = InitCache (cacheSize fl) newMetricMapper \<and>
              (\<forall>bs. map_option fst (resolveAll (mapper q) bs) = Some (map passThrough bs)))"
proof (cases rule: main_cases[of fl w])
  case NoListener
  then show ?thesis by (simp add: run_def traceOf_def)
next
  case QueuePanic
  then show ?thesis by (auto simp: run_def traceOf_def banner_def)
next
  case (ListenerFatal xs)
  have "\<not> mapperEffect e" if "e \<in> set (preamble fl @ xs)" for e
    using that ListenerFatal(2) preamble_no_mapperEffect[of fl] by (auto simp: list_all_iff)
  then have "CallInitFromFile f n \<notin> set (preamble fl @ xs)" for f n
    by fastforce
  then show ?thesis using ListenerFatal(3) by (simp add: run_def traceOf_def)
next
  case (Listening xs)
  define warn where "warn = replicate (length ws) (Log Warn ''Received SIGHUP but no mapping config to reload'')"
  define q where "q = \<lparr>trace = (preamble fl @ xs) @ [NewMetricMapper, CallInitCache (cacheSize fl)] @
        [GoConfigReloader (mappingConfig fl) (cacheSize fl), NewExporter, GoExporterListen, AwaitSignals] @ warn,
      mapper = InitCache (cacheSize fl) newMetricMapper, configLoads = (\<lambda>_. 0)\<rparr>"
  have r: "run fl w ws = Inr q"
    using Listening(3) assms
    by (simp add: run_def initMapper_no_config configReloader_no_config q_def warn_def)
  have w: "filter mapperEffect warn = []"
    by (simp add: warn_def filter_empty_conv)
  have pre: "filter mapperEffect (preamble fl @ xs) = []"
    using filter_mapperEffect_none[OF Listening(2)]
      filter_mapperEffect_none[OF preamble_no_mapperEffect[of fl]] by simp
  have f: "filter mapperEffect (trace q) = [NewMetricMapper, CallInitCache (cacheSize fl)]"
    using w pre by (simp add: q_def)
  have "CallInitFromFile g n \<notin> set (trace q)" for g n
  proof
    assume "CallInitFromFile g n \<in> set (trace q)"
    then have "CallInitFromFile g n \<in> set (filter mapperEffect (trace q))" by simp
    then show False unfolding f by simp
  qed
  moreover have "map_option fst (resolveAll (mapper q) bs) = Some (map passThrough bs)" for bs
    by (simp add: q_def resolveAll_after_InitCache)
  ultimately show ?thesis using r f by (simp add: traceOf_def q_def)
qed

theorem no_config_witness:
  "mappingConfig defaultFlags = [] \<and>
   (case run defaultFlags obligingWorld [obligingWorld] of
      Inl t \<Rightarrow> False
    | Inr q \<Rightarrow>
        filter mapperEffect (trace q) = [NewMetricMapper, CallInitCache 1000] \<and>
        map_option fst (resolveAll (mapper q) [''foo.bar'', ''foo.bar'']) =
          Some [passThrough ''foo.bar'', passThrough ''foo.bar'']) \<and>
   resolvedName (passThrough ''foo.bar'') = ''foo_bar''"
proof -
  have c: "mappingConfig defaultFlags = []"
    by (simp add: defaultFlags_def)
  obtain q where q: "run defaultFlags obligingWorld [obligingWorld] = Inr q"
    by (simp add: run_def startup_defs)
  have n: "resolvedName (passThrough ''foo.bar'') = ''foo_bar''"
    by (simp add: passThrough_def sanitize_def metricChar_def)
  have k: "cacheSize defaultFlags = 1000"
    by (simp add: defaultFlags_def)
  have "filter mapperEffect (trace q) = [NewMetricMapper, CallInitCache (cacheSize defaultFlags)] \<and>
        (\<forall>bs. map_option fst (resolveAll (mapper q) bs) = Some (map passThrough bs))"
    using no_config_is_pass_through [OF c, of obligingWorld "[obligingWorld]"] q by blast
  then have "filter mapperEffect (trace q) = [NewMetricMapper, CallInitCache 1000] \<and>
        map_option fst (resolveAll (mapper q) [''foo.bar'', ''foo.bar'']) =
          Some (map passThrough [''foo.bar'', ''foo.bar''])"
    unfolding k by blast
  then show ?thesis
    using q c n by (simp del: resolveAll.simps)
qed

section \<open>The event queue\<close>

lemma send_Some:
  "send b s = Some s' \<Longrightarrow>
   pending s' = pending s \<and> queueSize s' = queueSize s \<and> flushThreshold s' = flushThreshold s \<and>
   ((length (chan s) < queueSize s \<and> chan s' = chan s @ [b] \<and> delivered s' = delivered s) \<or>
    (queueSize s = 0 \<and> chan s' = chan s \<and> delivered s' = delivered s @ [b]))"
  by (auto simp: send_def split: if_splits)

lemma flush_Some:
  "flush s = Some s' \<Longrightarrow>
   pending s' = [] \<and> queueSize s' = queueSize s \<and> flushThreshold s' = flushThreshold s \<and>
   ((length (chan s) < queueSize s \<and> chan s' = chan s @ [pending s] \<and> delivered s' = delivered s) \<or>
    (queueSize s = 0 \<and> chan s' = chan s \<and> delivered s' = delivered s @ [pending s]))"
  by (auto simp: flush_def split: option.splits dest!: send_Some)


text \<open>What one action does, case by case.\<close>

lemma perform_cases:
  assumes "perform a s = Some s'"
  obtains
    (Accept) e where "a = Enqueue e" "int (length (pending s)) + 1 < flushThreshold s"
      "s' = s\<lparr>pending := pending s @ [e]\<rparr>"
  | (Buffer) b where "length (chan s) < queueSize s" "prefix (pending s) b"
      "int (length b) \<le> max 1 (int (length (pending s)) + 1)"
      "concat [b] = pending s @ enqueued [a]"
      "s' = s\<lparr>pending := [], chan := chan s @ [b]\<rparr>"
  | (Handoff) b where "queueSize s = 0" "prefix (pending s) b"
      "concat [b] = pending s @ enqueued [a]"
      "s' = s\<lparr>pending := [], delivered := delivered s @ [b]\<rparr>"
  | (Recv) b bs where "a = Receive" "chan s = b # bs"
      "s' = s\<lparr>chan := bs, delivered := delivered s @ [b]\<rparr>"
proof (cases a)
  case (Enqueue e)
  show ?thesis
  proof (cases "flushThreshold s \<le> int (length (pending s)) + 1")
    case False
    then show ?thesis using assms Enqueue Accept[of e] by (simp add: Let_def)
  next
    case True
    then have f: "flush (s\<lparr>pending := pending s @ [e]\<rparr>) = Some s'"
      using assms Enqueue by (simp add: Let_def)
    from flush_Some[OF f] show ?thesis
    proof (elim conjE disjE)
      assume "length (chan (s\<lparr>pending := pending s @ [e]\<rparr>)) < queueSize (s\<lparr>pending := pending s @ [e]\<rparr>)"
        "chan s' = chan (s\<lparr>pending := pending s @ [e]\<rparr>) @ [pending (s\<lparr>pending := pending s @ [e]\<rparr>)]"
        "delivered s' = delivered (s\<lparr>pending := pending s @ [e]\<rparr>)"
        "pending s' = []" "queueSize s' = queueSize (s\<lparr>pending := pending s @ [e]\<rparr>)"
        "flushThreshold s' = flushThreshold (s\<lparr>pending := pending s @ [e]\<rparr>)"
      then show ?thesis using Buffer[of "pending s @ [e]"] Enqueue by simp
    next
      assume "queueSize (s\<lparr>pending := pending s @ [e]\<rparr>) = 0"
        "chan s' = chan (s\<lparr>pending := pending s @ [e]\<rparr>)"
        "delivered s' = delivered (s\<lparr>pending := pending s @ [e]\<rparr>) @ [pending (s\<lparr>pending := pending s @ [e]\<rparr>)]"
        "pending s' = []" "queueSize s' = queueSize (s\<lparr>pending := pending s @ [e]\<rparr>)"
        "flushThreshold s' = flushThreshold (s\<lparr>pending := pending s @ [e]\<rparr>)"
      then show ?thesis using Handoff[of "pending s @ [e]"] Enqueue by simp
    qed
  qed
next
  case FlushTimer
  then have f: "flush s = Some s'" using assms by simp
  from flush_Some[OF f] show ?thesis
  proof (elim conjE disjE)
    assume "length (chan s) < queueSize s" "chan s' = chan s @ [pending s]"
      "delivered s' = delivered s" "pending s' = []" "queueSize s' = queueSize s"
      "flushThreshold s' = flushThreshold s"
    then show ?thesis using Buffer[of "pending s"] FlushTimer by simp
  next
    assume "queueSize s = 0" "chan s' = chan s" "delivered s' = delivered s @ [pending s]"
      "pending s' = []" "queueSize s' = queueSize s" "flushThreshold s' = flushThreshold s"
    then show ?thesis using Handoff[of "pending s"] FlushTimer by simp
  qed
next
  case Receive
  then show ?thesis using assms Recv by (auto split: list.splits)
qed


lemma perform_params:
  "perform a s = Some s' \<Longrightarrow> queueSize s' = queueSize s \<and> flushThreshold s' = flushThreshold s"
  by (erule perform_cases) auto





text \<open>The invariant of the queue: the channel holds at most its capacity in batches, a
  batch holds at most the threshold (or one event), and fewer are pending.\<close>

lemma perform_bounded:
  assumes "perform a s = Some s'" and "length (chan s) \<le> queueSize s"
    and "int (length (pending s)) < max 1 (flushThreshold s)"
    and "\<forall>b \<in> set (chan s). int (length b) \<le> max 1 (flushThreshold s)"
  shows "length (chan s') \<le> queueSize s' \<and>
         int (length (pending s')) < max 1 (flushThreshold s') \<and>
         (\<forall>b \<in> set (chan s'). int (length b) \<le> max 1 (flushThreshold s'))"
  using assms(1)
proof (cases rule: perform_cases)
  case (Accept e)
  then show ?thesis using assms(2,3,4) by auto
next
  case (Buffer b)
  then show ?thesis using assms(2,3,4) by auto
next
  case (Handoff b)
  then show ?thesis using assms(2,3,4) by auto
next
  case (Recv b bs)
  then show ?thesis using assms(2,3,4) by auto
qed

lemma runQueue_bounded:
  assumes "runQueue as s = Some s'" and "length (chan s) \<le> queueSize s"
    and "int (length (pending s)) < max 1 (flushThreshold s)"
    and "\<forall>b \<in> set (chan s). int (length b) \<le> max 1 (flushThreshold s)"
  shows "queueSize s' = queueSize s \<and> flushThreshold s' = flushThreshold s \<and>
         length (chan s') \<le> queueSize s' \<and>
         int (length (pending s')) < max 1 (flushThreshold s') \<and>
         (\<forall>b \<in> set (chan s'). int (length b) \<le> max 1 (flushThreshold s'))"
  using assms
proof (induction as arbitrary: s)
  case Nil
  then show ?case by simp
next
  case (Cons a as)
  then obtain s1 where s1: "perform a s = Some s1" "runQueue as s1 = Some s'"
    by (auto split: option.splits)
  from perform_bounded[OF s1(1) Cons.prems(2,3,4)]
  have b: "length (chan s1) \<le> queueSize s1"
      "int (length (pending s1)) < max 1 (flushThreshold s1)"
      "\<forall>b \<in> set (chan s1). int (length b) \<le> max 1 (flushThreshold s1)"
    by blast+
  from perform_params[OF s1(1)]
  have e: "queueSize s1 = queueSize s" "flushThreshold s1 = flushThreshold s"
    by blast+
  from Cons.IH[OF s1(2) b]
  show ?case unfolding e .
qed

lemma length_concat_bounded:
  "\<forall>b \<in> set bs. length b \<le> n \<Longrightarrow> length (concat bs) \<le> length bs * n"
  by (induction bs) auto

lemma queueOf_bounded:
  "length (chan (queueOf fl)) \<le> queueSize (queueOf fl) \<and>
   int (length (pending (queueOf fl))) < max 1 (flushThreshold (queueOf fl)) \<and>
   (\<forall>b \<in> set (chan (queueOf fl)). int (length b) \<le> max 1 (flushThreshold (queueOf fl)))"
  by (simp add: queueOf_def)

text \<open>
  C7, as the code has it. The claim bounds the number of events that are accepted and not
  yet delivered by the configured queue size. The channel main creates carries batches,
  so the size counts batches: with a queue size of 1 and a flush threshold of 2, three
  events are accepted and none is delivered.
\<close>

theorem capacity_bounds_events_counterexample:
  "(case runQueue [Enqueue (1::nat), Enqueue 2, Enqueue 3]
           (queueOf (defaultFlags\<lparr>eventQueueSize := 1, eventFlushThreshold := 2\<rparr>)) of
      None \<Rightarrow> False
    | Some s \<Rightarrow>
        chan s = [[1, 2]] \<and> pending s = [3] \<and> delivered s = [] \<and> unflushed s = 3 \<and>
        \<not> int (unflushed s) \<le> eventQueueSize (defaultFlags\<lparr>eventQueueSize := 1, eventFlushThreshold := 2\<rparr>))"
  by (simp add: queueOf_def defaultFlags_def flush_def send_def unflushed_def)

text \<open>
  C7, amended. At every state a feasible schedule reaches from the queue main creates, the
  number of batches in the channel is at most the configured queue size; the events
  accepted and not yet delivered are fewer than (queue size + 1) times the flush
  threshold (a threshold below one counting as one).
\<close>

theorem capacity_bounds_batches:
  assumes "runQueue acts (queueOf fl) = Some (s :: 'e queue)"
  shows "length (chan s) \<le> nat (eventQueueSize fl) \<and>
         unflushed s < (nat (eventQueueSize fl) + 1) * nat (max 1 (eventFlushThreshold fl))"
proof -
  define T where "T = nat (max 1 (eventFlushThreshold fl))"
  have q: "queueSize (queueOf fl :: 'e queue) = nat (eventQueueSize fl)"
      "flushThreshold (queueOf fl :: 'e queue) = eventFlushThreshold fl"
    by (simp_all add: queueOf_def)
  from queueOf_bounded[of fl, where ?'a = 'e]
  have c: "length (chan (queueOf fl :: 'e queue)) \<le> queueSize (queueOf fl :: 'e queue)"
      "int (length (pending (queueOf fl :: 'e queue))) < max 1 (flushThreshold (queueOf fl :: 'e queue))"
      "\<forall>b \<in> set (chan (queueOf fl :: 'e queue)). int (length b) \<le> max 1 (flushThreshold (queueOf fl :: 'e queue))"
    by blast+
  from runQueue_bounded[OF assms c]
  have inv: "queueSize s = nat (eventQueueSize fl)" "flushThreshold s = eventFlushThreshold fl"
      "length (chan s) \<le> queueSize s"
      "int (length (pending s)) < max 1 (flushThreshold s)"
      "\<forall>b \<in> set (chan s). int (length b) \<le> max 1 (flushThreshold s)"
    unfolding q by blast+
  have p: "length (pending s) < T"
    using inv(2,4) by (simp add: T_def)
  have "\<forall>b \<in> set (chan s). length b \<le> T"
    using inv(2,5) by (auto simp: T_def)
  then have "length (concat (chan s)) \<le> length (chan s) * T"
    by (rule length_concat_bounded)
  also have "\<dots> \<le> nat (eventQueueSize fl) * T"
    using inv(1,3) by simp
  finally have "unflushed s < nat (eventQueueSize fl) * T + T"
    using p by (simp add: unflushed_def)
  then show ?thesis using inv(1,3) by (simp add: T_def)
qed

theorem capacity_bounds_batches_witness:
  "(case runQueue [Enqueue (1::nat), Enqueue 2, Enqueue 3]
           (queueOf (defaultFlags\<lparr>eventQueueSize := 1, eventFlushThreshold := 2\<rparr>)) of
      None \<Rightarrow> False
    | Some s \<Rightarrow> length (chan s) \<le> 1 \<and> unflushed s < 4 \<and> chan s = [[1, 2]])"
proof -
  let ?fl = "defaultFlags\<lparr>eventQueueSize := 1, eventFlushThreshold := 2\<rparr>"
  obtain s where s: "runQueue [Enqueue (1::nat), Enqueue 2, Enqueue 3] (queueOf ?fl) = Some s"
      and c: "chan s = [[1, 2]]"
    by (simp add: queueOf_def flush_def send_def)
  show ?thesis
    using capacity_bounds_batches [OF s] s c by simp
qed














end
